theory Spec2Isabelle
  imports Main
begin

section \<open>Python values, exceptions and call frames\<close>

text \<open>
  The values that flow through a tracked workflow. The provenance code looks at a value in
  two ways only: it hashes it, and it asks whether a returned value is a \<^verbatim>\<open>tuple\<close>.
  Lists are kept apart from tuples because \<^verbatim>\<open>isinstance(x, tuple)\<close> tells them apart.
\<close>

datatype pyval =
    PNone
  | PInt int
  | PStr string
  | PTuple "pyval list"
  | PList "pyval list"

text \<open>Exceptions are values; a computation that can raise returns \<open>exn + 'a\<close>.\<close>

datatype exn =
    ValueError string
  | TypeError
  | AttributeError
  | IndexError
  | KeyError string
  | SyntaxError
  | OSError
  | NotImplementedError
  | Exception string

text \<open>
  An execution frame as \<^verbatim>\<open>inspect\<close> shows it: \<open>co_filename\<close> is what
  \<^verbatim>\<open>inspect.getfile(frame)\<close> returns, \<open>info_filename\<close> and \<open>co_name\<close> are the
  \<^verbatim>\<open>filename\<close> and \<^verbatim>\<open>function\<close> fields of \<^verbatim>\<open>inspect.getframeinfo(frame)\<close>,
  \<open>f_back\<close> is the caller's frame (\<open>None\<close> at the bottom of the stack).
\<close>

datatype frame =
  Frame (co_filename: string) (info_filename: string) (co_name: string)
        (f_lineno: nat) (f_locals: "(string \<times> pyval) list") (f_back: "frame option")

section \<open>The data model of \<^verbatim>\<open>provenance.py\<close>\<close>

text \<open>\<^verbatim>\<open>FunctionDefinition = namedtuple('FunctionDefinition', ('name', 'module', 'version'))\<close>\<close>

record function_definition =
  name :: string
  module :: string
  version :: "pyval option"

text \<open>
  Modelled from the spec: the class \<^verbatim>\<open>BuffaloObjectHash\<close> of
  \<^verbatim>\<open>elephant/buffalo/object_hash.py\<close> is not part of the sources at hand. The spec
  describes it as \<open>ObjectIdentity\<close>, a content hash together with a reference to the
  underlying value, and says that two identities with equal content hash are the same
  identity. A dictionary keyed by such objects is therefore a map keyed by the content hash.
\<close>

record object_identity =
  id_hash :: int
  id_value :: pyval

text \<open>
  \<^verbatim>\<open>AnalysisStep\<close>. The fields \<^verbatim>\<open>function\<close>, \<^verbatim>\<open>input\<close>,
  \<^verbatim>\<open>params\<close> and \<^verbatim>\<open>output\<close> are called \<open>function_def\<close>, \<open>step_input\<close>,
  \<open>step_params\<close> and \<open>step_output\<close> here.
  The three dictionaries are association lists in insertion order, their keys distinct.
\<close>

record 't analysis_step =
  function_def :: function_definition
  step_input :: "(string \<times> object_identity) list"
  step_params :: "(string \<times> pyval) list"
  step_output :: "(nat \<times> object_identity) list"
  arg_map :: "string list"
  kwarg_map :: "string list"
  call_ast :: 't
  code_statement :: string

text \<open>
  The object that \<^verbatim>\<open>SourceCodeAnalyzer(source_code, source_lineno, source_name)\<close>
  builds: it holds its three constructor arguments.
\<close>

record code_analyzer_obj =
  an_source_code :: "string list"
  an_source_lineno :: nat
  an_source_name :: string

text \<open>
  The class attributes of \<^verbatim>\<open>Provenance\<close>: the process-wide session state. The type
  \<open>'t\<close> is the type of syntax trees (\<^verbatim>\<open>ast.AST\<close>).
\<close>

record 't provenance =
  active :: bool
  history :: "'t analysis_step list"
  objects :: "int \<rightharpoonup> object_identity"
  calling_frame :: "frame option"
  source_code :: "string list option"
  source_lineno :: "nat option"
  source_file :: "string option"
  source_name :: "string option"
  code_analyzer :: "code_analyzer_obj option"
  frame_ast :: "'t option"

definition Provenance_class :: "'t provenance" where
  "Provenance_class =
     \<lparr>active = False, history = [], objects = Map.empty, calling_frame = None,
      source_code = None, source_lineno = None, source_file = None, source_name = None,
      code_analyzer = None, frame_ast = None\<rparr>"

text \<open>
  A Python callable: the attributes that \<^verbatim>\<open>functools.wraps\<close> copies and that
  \<^verbatim>\<open>wrapped\<close> reads, the parameter names of \<^verbatim>\<open>signature(function)\<close> (\<open>None\<close> when
  the callable has no signature and \<^verbatim>\<open>signature\<close> raises \<^verbatim>\<open>ValueError\<close>), and the
  body. A body receives the frame it is called from, the positional and the keyword
  arguments and the session state; it returns a value or raises, and leaves a session
  state (a body may itself call wrapped functions, \<^verbatim>\<open>activate()\<close> or
  \<^verbatim>\<open>deactivate()\<close>).
\<close>

record 't pyfunction =
  fn_name :: string
  fn_module :: string
  fn_doc :: "string option"
  fn_params :: "string list option"
  fn_body :: "frame \<Rightarrow> pyval list \<Rightarrow> (string \<times> pyval) list \<Rightarrow> 't provenance
              \<Rightarrow> (exn + pyval) \<times> 't provenance"

text \<open>
  The collaborators of \<^verbatim>\<open>provenance.py\<close> that are not part of the sources at hand,
  and the library functions it calls, taken as parameters:
  \<^item> \<open>hash_value\<close>: the content hash that \<^verbatim>\<open>BuffaloObjectHash(obj)\<close> computes,
    taken to be defined for every value;
  \<^item> \<open>extract_multiline_statement\<close>: the method of \<^verbatim>\<open>SourceCodeAnalyzer\<close>;
  \<^item> \<open>ast_parse\<close>: \<^verbatim>\<open>ast.parse\<close>;
  \<^item> \<open>visit\<close>: \<^verbatim>\<open>CallAST(self, inputs, output).visit(tree)\<close>, which is handed the
    provenance object and may change the session state; it is taken to return normally
    (the spec calls the analysis best effort, never a hard failure) and to leave the two
    dictionaries it is handed as they are;
  \<^item> \<open>getsourcelines\<close>: the first component of \<^verbatim>\<open>inspect.getsourcelines(frame)\<close>;
  \<^item> \<open>new_graph\<close>, \<open>add_step\<close>, \<open>to_pyvis\<close>: \<^verbatim>\<open>BuffaloProvenanceGraph\<close>; \<open>'g\<close> is the
    type of graphs and \<open>'fs\<close> the state of the file system;
  \<^item> \<open>provenance_file\<close>: the path of the module \<^verbatim>\<open>provenance.py\<close> itself.
\<close>

record ('t, 'g, 'fs) env =
  hash_value :: "pyval \<Rightarrow> int"
  extract_multiline_statement :: "code_analyzer_obj \<Rightarrow> nat \<Rightarrow> exn + string"
  ast_parse :: "string \<Rightarrow> exn + 't"
  visit :: "'t \<Rightarrow> (string \<times> object_identity) list \<Rightarrow> (nat \<times> object_identity) list
            \<Rightarrow> 't provenance \<Rightarrow> 't provenance"
  getsourcelines :: "frame \<Rightarrow> exn + string list"
  new_graph :: 'g
  add_step :: "'g \<Rightarrow> 't analysis_step \<Rightarrow> 'g"
  to_pyvis :: "'g \<Rightarrow> string \<Rightarrow> bool \<Rightarrow> 'fs \<Rightarrow> (exn + unit) \<times> 'fs"
  provenance_file :: string

section \<open>The object registry: \<^verbatim>\<open>Provenance.add\<close>\<close>

definition BuffaloObjectHash :: "('t, 'g, 'fs) env \<Rightarrow> pyval \<Rightarrow> object_identity" where
  "BuffaloObjectHash E obj = \<lparr>id_hash = hash_value E obj, id_value = obj\<rparr>"

text \<open>
  \<^verbatim>\<open>
  object_hash = BuffaloObjectHash(obj)
  if object_hash not in cls.objects:
      cls.objects[object_hash] = object_hash
  return cls.objects[object_hash]
  \<close>
\<close>

definition add :: "('t, 'g, 'fs) env \<Rightarrow> pyval \<Rightarrow> 't provenance
                   \<Rightarrow> object_identity \<times> 't provenance" where
  "add E obj s =
     (let object_hash = BuffaloObjectHash E obj in
      case objects s (id_hash object_hash) of
        None \<Rightarrow>
          (object_hash, s\<lparr>objects := (objects s)(id_hash object_hash \<mapsto> object_hash)\<rparr>)
      | Some existing \<Rightarrow> (existing, s))"

text \<open>
  \<^verbatim>\<open>
  instance = cls.calling_frame.f_locals[name]
  object_hash = cls.add(instance)
  return instance, object_hash
  \<close>
\<close>

definition add_script_variable ::
  "('t, 'g, 'fs) env \<Rightarrow> string \<Rightarrow> 't provenance
   \<Rightarrow> (exn + pyval \<times> object_identity) \<times> 't provenance" where
  "add_script_variable E nm s =
     (case calling_frame s of
        None \<Rightarrow> (Inl AttributeError, s)
      | Some fr \<Rightarrow>
          (case map_of (f_locals fr) nm of
             None \<Rightarrow> (Inl (KeyError nm), s)
           | Some instance \<Rightarrow>
               (let (object_hash, s') = add E instance s
                in (Inr (instance, object_hash), s'))))"

section \<open>The call interceptor: \<^verbatim>\<open>Provenance.__call__\<close> and \<^verbatim>\<open>wrapped\<close>\<close>

text \<open>
  \<^verbatim>\<open>Provenance.__init__\<close>: the decorator object is its list \<^verbatim>\<open>inputs\<close>.
\<close>

definition Provenance_init :: "pyval \<Rightarrow> exn + pyval list" where
  "Provenance_init inputs =
     (case inputs of
        PList xs \<Rightarrow> Inr xs
      | _ \<Rightarrow> Inl (ValueError ''`inputs` must be a list''))"

text \<open>
  The walk over comprehension frames (lines 144 to 151). When \<^verbatim>\<open>frame.f_back\<close> is
  \<^verbatim>\<open>None\<close>, \<^verbatim>\<open>inspect.getframeinfo(None)\<close> reads \<^verbatim>\<open>None.f_lineno\<close> and
  raises \<^verbatim>\<open>AttributeError\<close>.
\<close>

fun enclosing_scope :: "frame \<Rightarrow> exn + frame" where
  "enclosing_scope (Frame cfile ifile nm ln loc back) =
     (if nm = ''<listcomp>''
      then (case back of None \<Rightarrow> Inl AttributeError | Some b \<Rightarrow> enclosing_scope b)
      else Inr (Frame cfile ifile nm ln loc back))"

text \<open>
  Lines 143 to 158: the line number of the call when the calling scope is the tracked
  script, \<open>None\<close> otherwise. \<open>self.source_file\<close> and \<open>self.source_name\<close> are the class
  attributes.
\<close>

definition calling_lineno :: "'t provenance \<Rightarrow> frame \<Rightarrow> exn + nat option" where
  "calling_lineno s caller =
     (case enclosing_scope caller of
        Inl e \<Rightarrow> Inl e
      | Inr fr \<Rightarrow>
          if Some (info_filename fr) = source_file s \<and> Some (co_name fr) = source_name s
          then Inr (Some (f_lineno fr))
          else Inr None)"

text \<open>
  The spec's description of the same walk, kept apart from the code's loop so that the
  two can be compared: the call stack seen from a frame is the list of frames reached by
  following \<open>f_back\<close>, the frame itself first; the scope a call is attributed to is the
  first frame of that list, going outward, that is not a comprehension scope.
\<close>

fun frames_outward :: "frame \<Rightarrow> frame list" where
  "frames_outward (Frame cfile ifile nm ln loc back) =
     Frame cfile ifile nm ln loc back #
       (case back of None \<Rightarrow> [] | Some b \<Rightarrow> frames_outward b)"

definition first_named_scope :: "frame \<Rightarrow> frame option" where
  "first_named_scope caller =
     find (\<lambda>g. co_name g \<noteq> ''<listcomp>'') (frames_outward caller)"

text \<open>
  The frame of \<^verbatim>\<open>wrapped\<close> itself while it runs the function at line 160. Its local
  variables play no role and are left out.
\<close>

definition wrapped_frame :: "('t, 'g, 'fs) env \<Rightarrow> frame \<Rightarrow> frame" where
  "wrapped_frame E caller =
     Frame (provenance_file E) (provenance_file E) ''wrapped'' 160 [] (Some caller)"

text \<open>\<^verbatim>\<open>d[k] = v\<close> on a dictionary kept in insertion order.\<close>

fun dict_set :: "'k \<Rightarrow> 'v \<Rightarrow> ('k \<times> 'v) list \<Rightarrow> ('k \<times> 'v) list" where
  "dict_set k v [] = [(k, v)]"
| "dict_set k v ((k', v') # d) = (if k' = k then (k, v) # d else (k', v') # dict_set k v d)"

text \<open>
  Step 3.1, the loop over \<^verbatim>\<open>enumerate(args)\<close>: \<^verbatim>\<open>params[arg_id]\<close> raises
  \<^verbatim>\<open>IndexError\<close> when there are more positional arguments than parameter names.
\<close>

fun bind_args ::
  "string list \<Rightarrow> nat \<Rightarrow> pyval list \<Rightarrow> (string \<times> pyval) list \<times> string list
   \<Rightarrow> exn + (string \<times> pyval) list \<times> string list" where
  "bind_args ps arg_id [] acc = Inr acc"
| "bind_args ps arg_id (arg_val # rest) (input_data, input_args_names) =
     (if arg_id < length ps
      then bind_args ps (Suc arg_id) rest
             (dict_set (ps ! arg_id) arg_val input_data, input_args_names @ [ps ! arg_id])
      else Inl IndexError)"

text \<open>Step 3.2, the loop over \<^verbatim>\<open>kwargs.keys()\<close>; the keys of \<^verbatim>\<open>kwargs\<close> are distinct.\<close>

fun bind_kwargs ::
  "(string \<times> pyval) list \<Rightarrow> (string \<times> pyval) list \<times> string list
   \<Rightarrow> (string \<times> pyval) list \<times> string list" where
  "bind_kwargs [] acc = acc"
| "bind_kwargs ((kwarg_name, v) # rest) (input_data, input_kwargs_names) =
     bind_kwargs rest (dict_set kwarg_name v input_data, input_kwargs_names @ [kwarg_name])"

text \<open>
  Step 4, the loop over \<^verbatim>\<open>input_data.items()\<close>: the arguments named in
  \<^verbatim>\<open>self.inputs\<close> are registered, the others are kept as parameters. The result is
  \<open>((inputs, parameters), state)\<close>.
\<close>

fun partition_inputs ::
  "('t, 'g, 'fs) env \<Rightarrow> pyval list \<Rightarrow> (string \<times> pyval) list \<Rightarrow> 't provenance
   \<Rightarrow> ((string \<times> object_identity) list \<times> (string \<times> pyval) list) \<times> 't provenance" where
  "partition_inputs E self_inputs [] s = (([], []), s)"
| "partition_inputs E self_inputs ((key, val) # rest) s =
     (if PStr key \<in> set self_inputs
      then (let (i, s1) = add E val s;
                ((ins, ps), s2) = partition_inputs E self_inputs rest s1
            in (((key, i) # ins, ps), s2))
      else (let ((ins, ps), s2) = partition_inputs E self_inputs rest s
            in ((ins, (key, val) # ps), s2)))"

text \<open>Step 5, the loop over \<^verbatim>\<open>enumerate(function_output)\<close>, from index \<open>index\<close> on.\<close>

fun add_items ::
  "('t, 'g, 'fs) env \<Rightarrow> nat \<Rightarrow> pyval list \<Rightarrow> 't provenance
   \<Rightarrow> (nat \<times> object_identity) list \<times> 't provenance" where
  "add_items E index [] s = ([], s)"
| "add_items E index (item # rest) s =
     (let (i, s1) = add E item s;
          (outs, s2) = add_items E (Suc index) rest s1
      in ((index, i) # outs, s2))"

text \<open>
  Step 5:
  \<^verbatim>\<open>
  outputs = {}
  if isinstance(function_output, tuple):
      for index, item in enumerate(function_output):
          outputs[index] = self.add(item)
  else:
      outputs[0] = self.add(function_output)
  \<close>
\<close>

definition register_outputs ::
  "('t, 'g, 'fs) env \<Rightarrow> pyval \<Rightarrow> 't provenance
   \<Rightarrow> (nat \<times> object_identity) list \<times> 't provenance" where
  "register_outputs E function_output s =
     (case function_output of
        PTuple items \<Rightarrow> add_items E 0 items s
      | _ \<Rightarrow> (let (i, s1) = add E function_output s in ([(0, i)], s1)))"

text \<open>
  Step 1, lines 169 to 171: the statement of the calling line and its syntax tree.
  \<^verbatim>\<open>self.code_analyzer\<close> is \<^verbatim>\<open>None\<close> until \<^verbatim>\<open>activate()\<close> has run.
\<close>

definition resolve_statement ::
  "('t, 'g, 'fs) env \<Rightarrow> 't provenance \<Rightarrow> nat \<Rightarrow> exn + string \<times> 't" where
  "resolve_statement E s lineno =
     (case code_analyzer s of
        None \<Rightarrow> Inl AttributeError
      | Some an \<Rightarrow>
          (case extract_multiline_statement E an lineno of
             Inl e \<Rightarrow> Inl e
           | Inr source_line \<Rightarrow>
               (case ast_parse E source_line of
                  Inl e \<Rightarrow> Inl e
                | Inr ast_tree \<Rightarrow> Inr (source_line, ast_tree))))"

text \<open>
  Lines 165 to 239, the body of \<^verbatim>\<open>if Provenance.active and lineno is not None\<close>:
  an exception leaves the state as it is at the point of the raise.
\<close>

definition record_step ::
  "('t, 'g, 'fs) env \<Rightarrow> pyval list \<Rightarrow> 't pyfunction \<Rightarrow> nat \<Rightarrow> pyval list
   \<Rightarrow> (string \<times> pyval) list \<Rightarrow> pyval \<Rightarrow> 't provenance \<Rightarrow> (exn + unit) \<times> 't provenance" where
  "record_step E self_inputs f lineno args kwargs function_output s =
     (case resolve_statement E s lineno of
        Inl e \<Rightarrow> (Inl e, s)
      | Inr (source_line, ast_tree) \<Rightarrow>
          (let function_name =
                 \<lparr>name = fn_name f, module = fn_module f, version = None\<rparr>
           in case fn_params f of
                None \<Rightarrow> (Inl (ValueError ''no signature found''), s)
              | Some ps \<Rightarrow>
                  (case bind_args ps 0 args ([], []) of
                     Inl e \<Rightarrow> (Inl e, s)
                   | Inr (input_data0, input_args_names) \<Rightarrow>
                       (let (input_data, input_kwargs_names) =
                              bind_kwargs kwargs (input_data0, []);
                            ((ins, parameters), s1) =
                              partition_inputs E self_inputs input_data s;
                            (outputs, s2) = register_outputs E function_output s1;
                            s3 = visit E ast_tree ins outputs s2;
                            step = \<lparr>function_def = function_name, step_input = ins,
                                    step_params = parameters, step_output = outputs,
                                    arg_map = input_args_names,
                                    kwarg_map = input_kwargs_names,
                                    call_ast = ast_tree, code_statement = source_line\<rparr>
                        in (Inr (), s3\<lparr>history := history s3 @ [step]\<rparr>)))))"

text \<open>
  \<^verbatim>\<open>wrapped(*args, **kwargs)\<close>, called from the frame \<open>caller\<close>. \<open>self_inputs\<close> is
  \<^verbatim>\<open>self.inputs\<close>, \<open>f\<close> the decorated function. \<^verbatim>\<open>Provenance.active\<close> is read before
  the function runs (line 142) and again after it (line 163).
\<close>

definition wrapped ::
  "('t, 'g, 'fs) env \<Rightarrow> pyval list \<Rightarrow> 't pyfunction \<Rightarrow> frame \<Rightarrow> pyval list
   \<Rightarrow> (string \<times> pyval) list \<Rightarrow> 't provenance \<Rightarrow> (exn + pyval) \<times> 't provenance" where
  "wrapped E self_inputs f caller args kwargs s =
     (case (if active s then calling_lineno s caller else Inr None) of
        Inl e \<Rightarrow> (Inl e, s)
      | Inr lineno \<Rightarrow>
          (case fn_body f (wrapped_frame E caller) args kwargs s of
             (Inl e, s1) \<Rightarrow> (Inl e, s1)
           | (Inr function_output, s1) \<Rightarrow>
               (case lineno of
                  Some n \<Rightarrow>
                    if active s1
                    then (case record_step E self_inputs f n args kwargs function_output s1 of
                            (Inl e, s2) \<Rightarrow> (Inl e, s2)
                          | (Inr u, s2) \<Rightarrow> (Inr function_output, s2))
                    else (Inr function_output, s1)
                | None \<Rightarrow> (Inr function_output, s1))))"

text \<open>
  \<^verbatim>\<open>Provenance.__call__\<close>: \<^verbatim>\<open>@wraps(function)\<close> gives the wrapper the name, module
  and docstring of \<^verbatim>\<open>function\<close>, and \<^verbatim>\<open>signature\<close> follows \<^verbatim>\<open>__wrapped__\<close>; the
  body of the wrapper is \<^verbatim>\<open>wrapped\<close>.
\<close>

definition Provenance_call ::
  "('t, 'g, 'fs) env \<Rightarrow> pyval list \<Rightarrow> 't pyfunction \<Rightarrow> 't pyfunction" where
  "Provenance_call E self_inputs f = f\<lparr>fn_body := wrapped E self_inputs f\<rparr>"

section \<open>The activation controller\<close>

text \<open>
  \<^verbatim>\<open>str.strip()\<close> on ASCII text: the whitespace characters are the codes 9 to 13,
  28 to 31 and 32.
\<close>

definition isspace :: "char \<Rightarrow> bool" where
  "isspace c = (let n = (of_char c :: nat) in (9 \<le> n \<and> n \<le> 13) \<or> (28 \<le> n \<and> n \<le> 32))"

definition strip :: "string \<Rightarrow> string" where
  "strip str = rev (dropWhile isspace (rev (dropWhile isspace str)))"

text \<open>
  \<^verbatim>\<open>Provenance.set_calling_frame(frame)\<close>: the attributes are assigned one after the
  other, so an exception of \<^verbatim>\<open>inspect.getsourcelines\<close> or of \<^verbatim>\<open>ast.parse\<close> leaves
  the earlier assignments in place. \<^verbatim>\<open>_create_code_analyzer\<close> is the last step.
\<close>

definition set_calling_frame ::
  "('t, 'g, 'fs) env \<Rightarrow> frame \<Rightarrow> 't provenance \<Rightarrow> (exn + unit) \<times> 't provenance" where
  "set_calling_frame E fr s =
     (let lineno = (if co_name fr = ''<module>'' then 1 else f_lineno fr);
          s1 = s\<lparr>calling_frame := Some fr, source_file := Some (co_filename fr),
                 source_name := Some (co_name fr), source_lineno := Some lineno\<rparr>
      in case getsourcelines E fr of
           Inl e \<Rightarrow> (Inl e, s1)
         | Inr lines \<Rightarrow>
             (let s2 = s1\<lparr>source_code := Some lines\<rparr>
              in case ast_parse E (strip (concat lines)) of
                   Inl e \<Rightarrow> (Inl e, s2)
                 | Inr tree \<Rightarrow>
                     (Inr (),
                      s2\<lparr>frame_ast := Some tree,
                         code_analyzer :=
                           Some \<lparr>an_source_code = lines, an_source_lineno = lineno,
                                 an_source_name = co_name fr\<rparr>\<rparr>)))"

text \<open>
  \<^verbatim>\<open>activate()\<close>, called from the frame \<open>caller\<close>
  (\<^verbatim>\<open>inspect.currentframe().f_back\<close>).
\<close>

definition activate ::
  "('t, 'g, 'fs) env \<Rightarrow> frame \<Rightarrow> 't provenance \<Rightarrow> (exn + unit) \<times> 't provenance" where
  "activate E caller s =
     (case set_calling_frame E caller s of
        (Inl e, s1) \<Rightarrow> (Inl e, s1)
      | (Inr u, s1) \<Rightarrow> (Inr (), s1\<lparr>active := True\<rparr>))"

text \<open>\<^verbatim>\<open>deactivate()\<close>: \<^verbatim>\<open>Provenance.active = False\<close>.\<close>

definition deactivate :: "'t provenance \<Rightarrow> 't provenance" where
  "deactivate s = s\<lparr>active := False\<rparr>"

section \<open>Export: \<^verbatim>\<open>save_graph\<close>\<close>

text \<open>\<^verbatim>\<open>str.rfind(c)\<close>: the index of the last occurrence of \<open>c\<close>, or \<open>-1\<close>.\<close>

fun rfind_from :: "char \<Rightarrow> string \<Rightarrow> int \<Rightarrow> int \<Rightarrow> int" where
  "rfind_from c [] i found = found"
| "rfind_from c (x # xs) i found = rfind_from c xs (i + 1) (if x = c then i else found)"

definition rfind :: "char \<Rightarrow> string \<Rightarrow> int" where
  "rfind c p = rfind_from c p 0 (- 1)"

text \<open>
  \<^verbatim>\<open>os.path.splitext\<close> on POSIX (\<^verbatim>\<open>genericpath._splitext\<close> with separator \<^verbatim>\<open>/\<close>
  and no alternative separator): the extension starts at the last dot of the last path
  component, unless that component has only leading dots before it.
  \<^verbatim>\<open>
  sepIndex = p.rfind(sep)
  dotIndex = p.rfind(extsep)
  if dotIndex > sepIndex:
      filenameIndex = sepIndex + 1
      while filenameIndex < dotIndex:
          if p[filenameIndex:filenameIndex+1] != extsep:
              return p[:dotIndex], p[dotIndex:]
          filenameIndex += 1
  return p, p[:0]
  \<close>
\<close>

definition splitext :: "string \<Rightarrow> string \<times> string" where
  "splitext p =
     (let sepIndex = rfind (CHR ''/'') p;
          dotIndex = rfind (CHR ''.'') p
      in if dotIndex > sepIndex \<and>
            list_ex (\<lambda>c. c \<noteq> CHR ''.'')
              (take (nat (dotIndex - (sepIndex + 1))) (drop (nat (sepIndex + 1)) p))
         then (take (nat dotIndex) p, drop (nat dotIndex) p)
         else (p, []))"

text \<open>\<^verbatim>\<open>str.lower()\<close> on ASCII text.\<close>

definition lower_char :: "char \<Rightarrow> char" where
  "lower_char c =
     (let n = (of_char c :: nat) in if 65 \<le> n \<and> n \<le> 90 then char_of (n + 32) else c)"

definition lower :: "string \<Rightarrow> string" where
  "lower str = map lower_char str"

text \<open>
  \<^verbatim>\<open>Provenance.save_graph(filename, show)\<close> and the interface function
  \<^verbatim>\<open>save_graph\<close>, which passes its arguments on. The session state is read, not
  changed; \<open>fs\<close> is the state of the file system, which only \<^verbatim>\<open>to_pyvis\<close> touches.
\<close>

definition save_graph ::
  "('t, 'g, 'fs) env \<Rightarrow> string \<Rightarrow> bool \<Rightarrow> 't provenance \<Rightarrow> 'fs \<Rightarrow> (exn + unit) \<times> 'fs" where
  "save_graph E filename show s fs =
     (let (nm, ext) = splitext filename
      in if \<not> (lower ext \<in> set [''.html'', ''.htm''])
         then (Inl (ValueError ''Filename must have HTML extension (.html, .htm)!''), fs)
         else (let graph = foldl (add_step E) (new_graph E) (history s)
               in to_pyvis E graph filename show fs))"

section \<open>The registry invariant\<close>

text \<open>
  Every record of the registry is stored under its own content hash. The empty registry
  satisfies this, and \<^verbatim>\<open>Provenance.add\<close>, the only writer, keeps it.
\<close>

definition registry_inv :: "'t provenance \<Rightarrow> bool" where
  "registry_inv s = (\<forall>k i. objects s k = Some i \<longrightarrow> id_hash i = k)"

section \<open>A concrete session\<close>

text \<open>
  An instance of the collaborators and a small tracked script \<^verbatim>\<open>run.py\<close>, used to
  evaluate the model on concrete calls. The resolver of this instance returns single
  physical lines, its parser accepts a statement when its parentheses balance, its static
  analysis does nothing, and its graph is the list of steps.
  \<^verbatim>\<open>
  c = add(1, 2)
  d = pair(c)
  e = halves(d)
  f = add(1,
          2)
  \<close>
\<close>

fun demo_hash :: "pyval \<Rightarrow> int" where
  "demo_hash PNone = 0"
| "demo_hash (PInt n) = n"
| "demo_hash (PStr str) = int (length str)"
| "demo_hash (PTuple xs) = - 1 - int (length xs)"
| "demo_hash (PList xs) = - 100 - int (length xs)"

definition demo_extract :: "code_analyzer_obj \<Rightarrow> nat \<Rightarrow> exn + string" where
  "demo_extract an lineno =
     (if an_source_lineno an \<le> lineno \<and>
         lineno < an_source_lineno an + length (an_source_code an)
      then Inr (an_source_code an ! (lineno - an_source_lineno an))
      else Inl IndexError)"

definition demo_parse :: "string \<Rightarrow> exn + string" where
  "demo_parse str =
     (if count_list str (CHR ''('') = count_list str (CHR '')'') then Inr str
      else Inl SyntaxError)"

definition demo_source :: "string list" where
  "demo_source = [''c = add(1, 2)'', ''d = pair(c)'', ''e = halves(d)'', ''f = add(1,'',
                  ''        2)'']"

definition demo_env ::
  "(string, string analysis_step list, (string \<times> string analysis_step list) list) env" where
  "demo_env =
     \<lparr>hash_value = demo_hash,
      extract_multiline_statement = demo_extract,
      ast_parse = demo_parse,
      visit = (\<lambda>tree ins outs s. s),
      getsourcelines = (\<lambda>fr. Inr demo_source),
      new_graph = [],
      add_step = (\<lambda>g step. g @ [step]),
      to_pyvis = (\<lambda>g path show fs. (Inr (), (path, g) # fs)),
      provenance_file = ''elephant/buffalo/provenance.py''\<rparr>"

definition script_frame :: "nat \<Rightarrow> frame" where
  "script_frame lineno = Frame ''run.py'' ''run.py'' ''<module>'' lineno [] None"

definition script_listcomp :: "nat \<Rightarrow> frame" where
  "script_listcomp lineno =
     Frame ''run.py'' ''run.py'' ''<listcomp>'' lineno [] (Some (script_frame lineno))"

definition helper_frame :: frame where
  "helper_frame = Frame ''lib.py'' ''lib.py'' ''helper'' 10 [] (Some (script_frame 1))"

definition helper_listcomp :: frame where
  "helper_listcomp = Frame ''lib.py'' ''lib.py'' ''<listcomp>'' 11 [] (Some helper_frame)"

definition helper_nested_listcomp :: frame where
  "helper_nested_listcomp =
     Frame ''lib.py'' ''lib.py'' ''<listcomp>'' 11 [] (Some helper_listcomp)"

definition demo_analyzer :: code_analyzer_obj where
  "demo_analyzer =
     \<lparr>an_source_code = demo_source, an_source_lineno = 1, an_source_name = ''<module>''\<rparr>"

text \<open>The session after \<^verbatim>\<open>activate()\<close> at the top level of \<^verbatim>\<open>run.py\<close>.\<close>

definition demo_session :: "string provenance" where
  "demo_session = snd (activate demo_env (script_frame 1) Provenance_class)"

text \<open>The same session after the value \<open>7\<close> has been registered.\<close>

definition seven :: object_identity where
  "seven = \<lparr>id_hash = 7, id_value = PInt 7\<rparr>"

definition demo_registered :: "string provenance" where
  "demo_registered = snd (add demo_env (PInt 7) demo_session)"

text \<open>
  \<^verbatim>\<open>
  def add(a, b): return a + b       # TypeError unless both are integers
  def pair(x): return (x, x)
  def halves(x): return [x, x]
  \<close>
\<close>

definition py_add :: "string pyfunction" where
  "py_add =
     \<lparr>fn_name = ''add'', fn_module = ''__main__'', fn_doc = None,
      fn_params = Some [''a'', ''b''],
      fn_body = (\<lambda>fr args kwargs s.
        case args of
          [PInt a, PInt b] \<Rightarrow> (Inr (PInt (a + b)), s)
        | _ \<Rightarrow> (Inl TypeError, s))\<rparr>"

definition py_pair :: "string pyfunction" where
  "py_pair =
     \<lparr>fn_name = ''pair'', fn_module = ''__main__'', fn_doc = None,
      fn_params = Some [''x''],
      fn_body = (\<lambda>fr args kwargs s.
        case args of
          [x] \<Rightarrow> (Inr (PTuple [x, x]), s)
        | _ \<Rightarrow> (Inl TypeError, s))\<rparr>"

definition py_halves :: "string pyfunction" where
  "py_halves =
     \<lparr>fn_name = ''halves'', fn_module = ''__main__'', fn_doc = None,
      fn_params = Some [''x''],
      fn_body = (\<lambda>fr args kwargs s.
        case args of
          [x] \<Rightarrow> (Inr (PList [x, x]), s)
        | _ \<Rightarrow> (Inl TypeError, s))\<rparr>"

section \<open>Lemmas about the scope check and the interceptor\<close>

lemma enclosing_scope_not_listcomp:
  "enclosing_scope c = Inr fr \<Longrightarrow> co_name fr \<noteq> ''<listcomp>''"
  by (induction c rule: enclosing_scope.induct) (auto split: if_splits option.splits)

lemma enclosing_scope_first_named:
  "enclosing_scope c =
     (case first_named_scope c of None \<Rightarrow> Inl AttributeError | Some g \<Rightarrow> Inr g)"
  by (induction c rule: enclosing_scope.induct)
     (simp add: first_named_scope_def split: option.splits)

lemma enclosing_scope_back:
  "co_name c = ''<listcomp>'' \<Longrightarrow> f_back c = Some b \<Longrightarrow> enclosing_scope c = enclosing_scope b"
  by (cases c) simp

lemma calling_lineno_no_match:
  "enclosing_scope caller = Inr fr \<Longrightarrow>
   \<not> (Some (info_filename fr) = source_file s \<and> Some (co_name fr) = source_name s) \<Longrightarrow>
   calling_lineno s caller = Inr None"
  by (simp add: calling_lineno_def)

lemma calling_lineno_ok:
  "enclosing_scope caller = Inr fr \<Longrightarrow> \<exists>l. calling_lineno s caller = Inr l"
  by (simp add: calling_lineno_def)

lemma wrapped_no_lineno:
  "(if active s then calling_lineno s caller else Inr None) = Inr None \<Longrightarrow>
   wrapped E si f caller args kwargs s = fn_body f (wrapped_frame E caller) args kwargs s"
  by (auto simp: wrapped_def split: prod.splits sum.splits)

lemma wrapped_in_scope:
  assumes "active s" and "calling_lineno s caller = Inr (Some n)"
    and "fn_body f (wrapped_frame E caller) args kwargs s = (Inr out, s1)"
    and "active s1"
  shows "wrapped E si f caller args kwargs s =
         (case record_step E si f n args kwargs out s1 of
            (Inl e, s2) \<Rightarrow> (Inl e, s2)
          | (Inr u, s2) \<Rightarrow> (Inr out, s2))"
  using assms by (simp add: wrapped_def)

lemma record_step_resolution_fails:
  "resolve_statement E s n = Inl e \<Longrightarrow> record_step E si f n args kwargs out s = (Inl e, s)"
  by (simp add: record_step_def)

lemma record_step_Inr:
  assumes "record_step E si f n args kwargs out s = (Inr u, s2)"
  obtains src tree ps d0 an d kn ins prm sA outs sB where
    "resolve_statement E s n = Inr (src, tree)"
    "fn_params f = Some ps"
    "bind_args ps 0 args ([], []) = Inr (d0, an)"
    "bind_kwargs kwargs (d0, []) = (d, kn)"
    "partition_inputs E si d s = ((ins, prm), sA)"
    "register_outputs E out sA = (outs, sB)"
    "s2 = (visit E tree ins outs sB)\<lparr>history := history (visit E tree ins outs sB) @
       [\<lparr>function_def = \<lparr>name = fn_name f, module = fn_module f, version = None\<rparr>,
         step_input = ins, step_params = prm, step_output = outs, arg_map = an,
         kwarg_map = kn, call_ast = tree, code_statement = src\<rparr>]\<rparr>"
  using assms unfolding record_step_def
  by (auto simp: Let_def split: sum.splits option.splits prod.splits)

lemma bind_args_ok:
  "arg_id + length args \<le> length ps \<Longrightarrow> \<exists>r. bind_args ps arg_id args acc = Inr r"
proof (induction args arbitrary: arg_id acc)
  case Nil
  then show ?case by simp
next
  case (Cons a args)
  obtain d ns where acc: "acc = (d, ns)" by (cases acc)
  from Cons.prems have lt: "arg_id < length ps" and le: "Suc arg_id + length args \<le> length ps"
    by simp_all
  from Cons.IH[OF le] acc lt show ?case by simp
qed

lemma record_step_succeeds:
  assumes "resolve_statement E s n = Inr (src, tree)"
    and "fn_params f = Some ps"
    and "length args \<le> length ps"
  shows "\<exists>s2. record_step E si f n args kwargs out s = (Inr (), s2)"
proof -
  obtain r where "bind_args ps 0 args ([], []) = Inr r"
    using bind_args_ok[of 0 args ps "([], [])"] assms(3) by auto
  then show ?thesis
    using assms(1,2) by (cases r) (simp add: record_step_def Let_def split: prod.splits)
qed

lemma wrapped_records:
  assumes "active s" and "calling_lineno s caller = Inr (Some n)"
    and "fn_body f (wrapped_frame E caller) args kwargs s = (Inr out, s1)"
    and "active s1"
    and "resolve_statement E s1 n = Inr (src, tree)"
    and "fn_params f = Some ps"
    and "length args \<le> length ps"
  obtains s2 where "wrapped E si f caller args kwargs s = (Inr out, s2)"
    and "record_step E si f n args kwargs out s1 = (Inr (), s2)"
proof -
  obtain s2 where r: "record_step E si f n args kwargs out s1 = (Inr (), s2)"
    using record_step_succeeds[OF assms(5,6,7)] by blast
  have "wrapped E si f caller args kwargs s = (Inr out, s2)"
    using wrapped_in_scope[OF assms(1,2,3,4)] r by simp
  then show ?thesis using r that by blast
qed

section \<open>Lemmas about the registry\<close>

lemma add_cases:
  "add E v s = (i, s') \<Longrightarrow>
   (objects s (hash_value E v) = None \<and> i = BuffaloObjectHash E v \<and>
      s' = s\<lparr>objects := (objects s)(hash_value E v \<mapsto> i)\<rparr>)
   \<or> (objects s (hash_value E v) = Some i \<and> s' = s)"
  by (auto simp: add_def BuffaloObjectHash_def Let_def split: option.splits)

lemma add_lookup:
  "add E v s = (i, s') \<Longrightarrow> objects s' (hash_value E v) = Some i"
  by (drule add_cases) auto

lemma add_keeps:
  "add E v s = (i, s') \<Longrightarrow> objects s k = Some j \<Longrightarrow> objects s' k = Some j"
  by (drule add_cases) auto

lemma add_inv:
  "add E v s = (i, s') \<Longrightarrow> registry_inv s \<Longrightarrow> registry_inv s'"
  by (drule add_cases) (auto simp: registry_inv_def BuffaloObjectHash_def split: if_splits)

lemma add_hash:
  "add E v s = (i, s') \<Longrightarrow> registry_inv s \<Longrightarrow> id_hash i = hash_value E v"
  by (drule add_cases) (auto simp: registry_inv_def BuffaloObjectHash_def)

lemma add_existing:
  "objects s (hash_value E v) = Some ex \<Longrightarrow> add E v s = (ex, s)"
  by (simp add: add_def BuffaloObjectHash_def)

lemma add_items_keeps:
  "add_items E n xs s = (outs, s') \<Longrightarrow> objects s k = Some j \<Longrightarrow> objects s' k = Some j"
proof (induction xs arbitrary: n s outs s')
  case Nil
  then show ?case by simp
next
  case (Cons x xs)
  obtain i s1 where a: "add E x s = (i, s1)" by (cases "add E x s")
  obtain r s2 where r: "add_items E (Suc n) xs s1 = (r, s2)" by (cases "add_items E (Suc n) xs s1")
  from Cons.prems(1) a r have "s' = s2" by simp
  moreover have "objects s1 k = Some j" using a Cons.prems(2) by (rule add_keeps)
  ultimately show ?case using Cons.IH[OF r] by simp
qed

lemma add_items_inv:
  "add_items E n xs s = (outs, s') \<Longrightarrow> registry_inv s \<Longrightarrow> registry_inv s'"
proof (induction xs arbitrary: n s outs s')
  case Nil
  then show ?case by simp
next
  case (Cons x xs)
  obtain i s1 where a: "add E x s = (i, s1)" by (cases "add E x s")
  obtain r s2 where r: "add_items E (Suc n) xs s1 = (r, s2)" by (cases "add_items E (Suc n) xs s1")
  from Cons.prems(1) a r have "s' = s2" by simp
  moreover have "registry_inv s1" using a Cons.prems(2) by (rule add_inv)
  ultimately show ?case using Cons.IH[OF r] by simp
qed

lemma add_items_indices:
  "add_items E n xs s = (outs, s') \<Longrightarrow> map fst outs = [n..<n + length xs]"
proof (induction xs arbitrary: n s outs s')
  case Nil
  then show ?case by simp
next
  case (Cons x xs)
  obtain i s1 where a: "add E x s = (i, s1)" by (cases "add E x s")
  obtain r s2 where r: "add_items E (Suc n) xs s1 = (r, s2)" by (cases "add_items E (Suc n) xs s1")
  from Cons.prems(1) a r have o: "outs = (n, i) # r" by simp
  from Cons.IH[OF r] have "map fst r = [Suc n..<Suc n + length xs]" .
  with o show ?case by (simp add: upt_rec)
qed

lemma add_items_hashes:
  "add_items E n xs s = (outs, s') \<Longrightarrow> registry_inv s \<Longrightarrow>
   map (\<lambda>p. id_hash (snd p)) outs = map (hash_value E) xs"
proof (induction xs arbitrary: n s outs s')
  case Nil
  then show ?case by simp
next
  case (Cons x xs)
  obtain i s1 where a: "add E x s = (i, s1)" by (cases "add E x s")
  obtain r s2 where r: "add_items E (Suc n) xs s1 = (r, s2)" by (cases "add_items E (Suc n) xs s1")
  from Cons.prems(1) a r have o: "outs = (n, i) # r" by simp
  have h: "id_hash i = hash_value E x" using a Cons.prems(2) by (rule add_hash)
  have "registry_inv s1" using a Cons.prems(2) by (rule add_inv)
  from Cons.IH[OF r this] o h show ?case by simp
qed

lemma partition_inputs_keeps:
  "partition_inputs E si d s = (r, s') \<Longrightarrow> objects s k = Some j \<Longrightarrow> objects s' k = Some j"
proof (induction d arbitrary: s r s')
  case Nil
  then show ?case by simp
next
  case (Cons kv d)
  obtain key val where kv: "kv = (key, val)" by (cases kv)
  show ?case
  proof (cases "PStr key \<in> set si")
    case True
    obtain i s1 where a: "add E val s = (i, s1)" by (cases "add E val s")
    obtain r2 s2 where r: "partition_inputs E si d s1 = (r2, s2)"
      by (cases "partition_inputs E si d s1")
    from Cons.prems(1) kv True a r have "s' = s2" by (simp split: prod.splits)
    moreover have "objects s1 k = Some j" using a Cons.prems(2) by (rule add_keeps)
    ultimately show ?thesis using Cons.IH[OF r] by simp
  next
    case False
    obtain r2 s2 where r: "partition_inputs E si d s = (r2, s2)"
      by (cases "partition_inputs E si d s")
    from Cons.prems(1) kv False r have "s' = s2" by (simp split: prod.splits)
    then show ?thesis using Cons.IH[OF r Cons.prems(2)] by simp
  qed
qed

lemma partition_inputs_inv:
  "partition_inputs E si d s = (r, s') \<Longrightarrow> registry_inv s \<Longrightarrow> registry_inv s'"
proof (induction d arbitrary: s r s')
  case Nil
  then show ?case by simp
next
  case (Cons kv d)
  obtain key val where kv: "kv = (key, val)" by (cases kv)
  show ?case
  proof (cases "PStr key \<in> set si")
    case True
    obtain i s1 where a: "add E val s = (i, s1)" by (cases "add E val s")
    obtain r2 s2 where r: "partition_inputs E si d s1 = (r2, s2)"
      by (cases "partition_inputs E si d s1")
    from Cons.prems(1) kv True a r have "s' = s2" by (simp split: prod.splits)
    moreover have "registry_inv s1" using a Cons.prems(2) by (rule add_inv)
    ultimately show ?thesis using Cons.IH[OF r] by simp
  next
    case False
    obtain r2 s2 where r: "partition_inputs E si d s = (r2, s2)"
      by (cases "partition_inputs E si d s")
    from Cons.prems(1) kv False r have "s' = s2" by (simp split: prod.splits)
    then show ?thesis using Cons.IH[OF r Cons.prems(2)] by simp
  qed
qed

lemma register_outputs_keeps:
  "register_outputs E out s = (outs, s') \<Longrightarrow> objects s k = Some j \<Longrightarrow> objects s' k = Some j"
  by (cases out) (auto simp: register_outputs_def split: prod.splits dest: add_keeps add_items_keeps)

lemma register_outputs_shape:
  assumes "register_outputs E out s = (outs, s')" and "registry_inv s"
  shows "case out of
           PTuple items \<Rightarrow>
             map fst outs = [0..<length items] \<and>
             map (\<lambda>p. id_hash (snd p)) outs = map (hash_value E) items
         | _ \<Rightarrow> map fst outs = [0] \<and> map (\<lambda>p. id_hash (snd p)) outs = [hash_value E out]"
proof (cases out)
  case (PTuple items)
  with assms(1) have a: "add_items E 0 items s = (outs, s')"
    by (simp add: register_outputs_def)
  from add_items_indices[OF a] add_items_hashes[OF a assms(2)] PTuple show ?thesis by simp
qed (use assms in \<open>auto simp: register_outputs_def split: prod.splits dest: add_hash\<close>)

lemma set_calling_frame_objects:
  "objects (snd (set_calling_frame E fr s)) = objects s"
  by (simp add: set_calling_frame_def Let_def split: sum.splits)

lemma activate_objects: "objects (snd (activate E fr s)) = objects s"
  using set_calling_frame_objects[of E fr s]
  by (cases "set_calling_frame E fr s") (auto simp: activate_def split: sum.splits)

lemma add_script_variable_keeps:
  "objects s k = Some j \<Longrightarrow> objects (snd (add_script_variable E nm s)) k = Some j"
  by (auto simp: add_script_variable_def split: option.splits prod.splits dest: add_keeps)

lemma record_step_keeps:
  assumes "objects s k = Some j"
    and "\<forall>t ins outs s'. objects s' k = Some j \<longrightarrow> objects (visit E t ins outs s') k = Some j"
  shows "objects (snd (record_step E si f n args kwargs out s)) k = Some j"
proof (cases "record_step E si f n args kwargs out s")
  case (Pair r s2)
  show ?thesis
  proof (cases r)
    case (Inl e)
    with Pair have "s2 = s"
      by (auto simp: record_step_def Let_def split: sum.splits option.splits prod.splits)
    with Pair assms(1) show ?thesis by simp
  next
    case (Inr u)
    with Pair have "record_step E si f n args kwargs out s = (Inr u, s2)" by simp
    then obtain tree d ins prm sA outs sB where
        p: "partition_inputs E si d s = ((ins, prm), sA)"
      and o: "register_outputs E out sA = (outs, sB)"
      and s2: "objects s2 = objects (visit E tree ins outs sB)"
      by (rule record_step_Inr) simp
    have "objects sA k = Some j" using p assms(1) by (rule partition_inputs_keeps)
    with o have "objects sB k = Some j" by (rule register_outputs_keeps)
    with assms(2) s2 Pair show ?thesis by simp
  qed
qed

lemma wrapped_keeps:
  assumes "objects s k = Some j"
    and b: "\<forall>fr a kw s'. objects s' k = Some j \<longrightarrow> objects (snd (fn_body f fr a kw s')) k = Some j"
    and v: "\<forall>t ins outs s'. objects s' k = Some j \<longrightarrow> objects (visit E t ins outs s') k = Some j"
  shows "objects (snd (wrapped E si f caller args kwargs s)) k = Some j"
proof -
  have body: "objects (snd (fn_body f (wrapped_frame E caller) args kwargs s)) k = Some j"
    using assms(1) b by blast
  obtain r s1 where p: "fn_body f (wrapped_frame E caller) args kwargs s = (r, s1)"
    by (cases "fn_body f (wrapped_frame E caller) args kwargs s")
  with body have s1: "objects s1 k = Some j" by simp
  have rec: "\<And>n out r2 s2. record_step E si f n args kwargs out s1 = (r2, s2)
                 \<Longrightarrow> objects s2 k = Some j"
    using record_step_keeps[OF s1 v] by (metis snd_conv)
  show ?thesis
    using assms(1) s1 p rec
    by (auto simp: wrapped_def split: sum.splits option.splits prod.splits if_splits)
qed

section \<open>Facts about the concrete session\<close>

lemmas demo_frames = script_frame_def script_listcomp_def helper_frame_def helper_listcomp_def
  helper_nested_listcomp_def

lemma demo_session_eq:
  "demo_session =
     \<lparr>active = True, history = [], objects = Map.empty,
      calling_frame = Some (script_frame 1), source_code = Some demo_source,
      source_lineno = Some 1, source_file = Some ''run.py'',
      source_name = Some ''<module>'', code_analyzer = Some demo_analyzer,
      frame_ast = Some (concat demo_source)\<rparr>"
  by (simp add: demo_session_def activate_def set_calling_frame_def Provenance_class_def
      demo_env_def demo_parse_def demo_source_def demo_analyzer_def script_frame_def
      strip_def isspace_def)

lemma demo_registered_eq:
  "demo_registered = demo_session\<lparr>objects := [7 \<mapsto> seven]\<rparr>"
  by (simp add: demo_registered_def add_def BuffaloObjectHash_def demo_env_def seven_def
      demo_session_eq Let_def)

lemma demo_resolve:
  "resolve_statement demo_env demo_session 1 = Inr (''c = add(1, 2)'', ''c = add(1, 2)'')"
  "resolve_statement demo_env demo_session 2 = Inr (''d = pair(c)'', ''d = pair(c)'')"
  "resolve_statement demo_env demo_session 3 = Inr (''e = halves(d)'', ''e = halves(d)'')"
  "resolve_statement demo_env demo_session 4 = Inl SyntaxError"
  "resolve_statement demo_env demo_session 7 = Inl IndexError"
  by (simp_all add: resolve_statement_def demo_session_eq demo_env_def demo_extract_def
      demo_parse_def demo_analyzer_def demo_source_def)

lemma demo_lineno:
  "calling_lineno demo_session (script_frame n) = Inr (Some n)"
  "calling_lineno demo_session (script_listcomp n) = Inr (Some n)"
  "calling_lineno demo_session helper_frame = Inr None"
  "calling_lineno demo_session helper_listcomp = Inr None"
  by (simp_all add: calling_lineno_def demo_session_eq demo_frames)

lemma demo_env_fields:
  "hash_value demo_env = demo_hash"
  "visit demo_env t ins outs s = s"
  by (simp_all add: demo_env_def)

lemma demo_fields:
  "objects demo_session = Map.empty" "history demo_session = []"
  by (simp_all add: demo_session_eq)

lemma demo_active: "active demo_session"
  by (simp add: demo_session_eq)

lemma demo_inv: "registry_inv demo_session"
  by (simp add: registry_inv_def demo_session_eq)

lemma demo_bodies:
  "fn_body py_add fr [PInt 1, PInt 2] [] s = (Inr (PInt 3), s)"
  "fn_body py_add fr [PStr ''x'', PInt 2] [] s = (Inl TypeError, s)"
  "fn_body py_pair fr [PInt 3] [] s = (Inr (PTuple [PInt 3, PInt 3]), s)"
  "fn_body py_halves fr [PInt 3] [] s = (Inr (PList [PInt 3, PInt 3]), s)"
  by (simp_all add: py_add_def py_pair_def py_halves_def)

lemma demo_names:
  "fn_name py_add = ''add''" "fn_module py_add = ''__main__''"
  by (simp_all add: py_add_def)

lemma demo_params:
  "fn_params py_add = Some [''a'', ''b'']" "fn_params py_pair = Some [''x'']"
  "fn_params py_halves = Some [''x'']"
  by (simp_all add: py_add_def py_pair_def py_halves_def)

section \<open>The claims\<close>

subsection \<open>C1: a failure to resolve the source statement\<close>

text \<open>
  C1, as the code has it. The statement is resolved (lines 169 to 171) after the wrapped
  function has returned and outside any \<^verbatim>\<open>try\<close>. So when the call is in scope and
  the resolver or the parser raises, the wrapped function has run, its return value
  is dropped, and the resolution error reaches the caller of the wrapper. Nothing
  is recorded for the call: the session state is the one the function left.
\<close>

theorem resolution_failure_propagates:
  assumes "active s" and "calling_lineno s caller = Inr (Some n)"
    and "fn_body f (wrapped_frame E caller) args kwargs s = (Inr out, s1)"
    and "active s1"
    and "resolve_statement E s1 n = Inl e"
  shows "wrapped E si f caller args kwargs s = (Inl e, s1)"
  using assms by (simp add: wrapped_in_scope record_step_resolution_fails)

text \<open>
  An instance: the call \<^verbatim>\<open>add(1,\<close> on line 4 of the script spans two lines, which
  the resolver of the concrete session does not join; the parser rejects the fragment.
\<close>

theorem resolution_failure_propagates_witness:
  "wrapped demo_env [PStr ''a'', PStr ''b''] py_add (script_frame 4) [PInt 1, PInt 2] []
     demo_session = (Inl SyntaxError, demo_session)"
  using resolution_failure_propagates
          [OF demo_active demo_lineno(1) demo_bodies(1) demo_active demo_resolve(4)]
  by simp

text \<open>
  The spec's sentence fails: a call from line 7, for which the resolver has no source,
  does not return the value \<open>3\<close> of \<^verbatim>\<open>add(1, 2)\<close> but raises \<^verbatim>\<open>IndexError\<close>.
\<close>

theorem resolution_failure_aborts_call:
  "wrapped demo_env [PStr ''a'', PStr ''b''] py_add (script_frame 7) [PInt 1, PInt 2] []
     demo_session = (Inl IndexError, demo_session)"
  by (simp add: wrapped_def demo_active demo_lineno demo_bodies record_step_def demo_resolve)

subsection \<open>C2: transparency while tracking is inactive\<close>

text \<open>
  C2. While \<^verbatim>\<open>Provenance.active\<close> is false, a call of the wrapper is the call of
  the function it wraps (made from the wrapper's frame): the same value or the same
  exception, and the same session state afterwards, so nothing is appended to the history
  and nothing is registered by the wrapper.
\<close>

theorem inactive_call_transparent:
  "\<not> active s \<Longrightarrow>
   wrapped E si f caller args kwargs s = fn_body f (wrapped_frame E caller) args kwargs s"
  by (rule wrapped_no_lineno) simp

theorem inactive_call_transparent_witness:
  "\<not> active (Provenance_class :: string provenance)
   \<and> wrapped demo_env [PStr ''a'', PStr ''b''] py_add (script_frame 1) [PInt 1, PInt 2] []
       Provenance_class = (Inr (PInt 3), Provenance_class)
   \<and> wrapped demo_env [PStr ''a'', PStr ''b''] py_add (script_frame 1) [PStr ''x'', PInt 2] []
       Provenance_class = (Inl TypeError, Provenance_class)"
proof -
  have h: "\<not> active (Provenance_class :: string provenance)"
    by (simp add: Provenance_class_def)
  show ?thesis
    using h inactive_call_transparent[OF h, of demo_env _ py_add]
    by (simp add: demo_bodies)
qed

subsection \<open>C3: the lifetime of the registry's records\<close>

text \<open>
  C3, as the code has it. A record of the registry, once stored, stays under its key
  through every operation of the module: \<^verbatim>\<open>Provenance.add\<close>,
  \<^verbatim>\<open>add_script_variable\<close>, a call of a wrapped function, \<^verbatim>\<open>activate()\<close> and
  \<^verbatim>\<open>deactivate()\<close>. The last two do not reset the registry either. (A wrapped
  function's body and the static analysis are code from elsewhere; they are assumed to
  keep the record.)
\<close>

theorem registry_records_kept:
  assumes "objects s k = Some j"
    and "\<forall>fr a kw s'. objects s' k = Some j \<longrightarrow> objects (snd (fn_body f fr a kw s')) k = Some j"
    and "\<forall>t ins outs s'. objects s' k = Some j \<longrightarrow> objects (visit E t ins outs s') k = Some j"
  shows "objects (snd (add E v s)) k = Some j
         \<and> objects (snd (add_script_variable E nm s)) k = Some j
         \<and> objects (snd (wrapped E si f caller args kwargs s)) k = Some j
         \<and> objects (snd (activate E fr s)) k = Some j
         \<and> objects (deactivate s) k = Some j"
proof -
  have "objects (snd (add E v s)) k = Some j"
    using assms(1) by (cases "add E v s") (auto dest: add_keeps)
  moreover have "objects (snd (add_script_variable E nm s)) k = Some j"
    using assms(1) by (rule add_script_variable_keeps)
  moreover have "objects (snd (wrapped E si f caller args kwargs s)) k = Some j"
    using assms by (rule wrapped_keeps)
  moreover have "objects (snd (activate E fr s)) k = Some j"
    using assms(1) by (simp add: activate_objects)
  moreover have "objects (deactivate s) k = Some j"
    using assms(1) by (simp add: deactivate_def)
  ultimately show ?thesis by blast
qed

theorem registry_records_kept_witness:
  "objects demo_registered 7 = Some seven
   \<and> objects (snd (add demo_env (PInt 8) demo_registered)) 7 = Some seven
   \<and> objects (snd (wrapped demo_env [PStr ''a'', PStr ''b''] py_add (script_frame 1)
                     [PInt 1, PInt 2] [] demo_registered)) 7 = Some seven
   \<and> objects (snd (activate demo_env (script_frame 1) demo_registered)) 7 = Some seven
   \<and> objects (deactivate demo_registered) 7 = Some seven"
proof -
  have h1: "objects demo_registered 7 = Some seven"
    by (simp add: demo_registered_eq)
  have h2: "\<forall>fr a kw s'. objects s' 7 = Some seven \<longrightarrow>
              objects (snd (fn_body py_add fr a kw s')) 7 = Some seven"
    by (auto simp: py_add_def split: list.splits pyval.splits)
  have h3: "\<forall>t ins outs s'. objects s' 7 = Some seven \<longrightarrow>
              objects (visit demo_env t ins outs s') 7 = Some seven"
    by (simp add: demo_env_def)
  show ?thesis
    using h1 registry_records_kept[OF h1 h2 h3, of "PInt 8" _ "[PStr ''a'', PStr ''b'']"
        "script_frame 1" "[PInt 1, PInt 2]" "[]" "script_frame 1"]
    by simp
qed

text \<open>
  The registry is not reset on deactivation, nor on a new activation: the record of the
  value \<open>7\<close> is still there after \<^verbatim>\<open>deactivate()\<close> and after a following
  \<^verbatim>\<open>activate()\<close>.
\<close>

theorem registry_survives_deactivation:
  "objects (deactivate demo_registered) 7 = Some seven
   \<and> objects (snd (activate demo_env (script_frame 1) (deactivate demo_registered))) 7
       = Some seven"
  by (simp add: activate_objects deactivate_def demo_registered_eq)

subsection \<open>C4: registering a value twice\<close>

text \<open>
  C4. In a registry where every record is stored under its own hash, the identity that
  \<^verbatim>\<open>Provenance.add\<close> returns for a value is the record the registry holds under the
  value's hash afterwards. When no record was stored under that hash, it is the new
  identity of the value, and the registry is the old one with this one record added.
  When a record was stored, that record is returned and the registry is left as it is.
  Registering the value a second time, or any value with the same hash, returns the same
  identity and changes nothing. The returned identity carries the value's hash, the
  invariant is kept, and two records of the registry with the same hash are the same
  record.
\<close>

theorem add_idempotent:
  assumes "registry_inv s" and "add E v s = (i1, s1)"
  shows "objects s1 (hash_value E v) = Some i1
         \<and> (objects s (hash_value E v) = None \<longrightarrow>
               i1 = BuffaloObjectHash E v \<and>
               s1 = s\<lparr>objects := (objects s)(hash_value E v \<mapsto> i1)\<rparr>)
         \<and> add E v s1 = (i1, s1)
         \<and> (\<forall>w. hash_value E w = hash_value E v \<longrightarrow> add E w s1 = (i1, s1))
         \<and> (\<forall>ex. objects s (hash_value E v) = Some ex \<longrightarrow> i1 = ex \<and> s1 = s)
         \<and> id_hash i1 = hash_value E v
         \<and> registry_inv s1
         \<and> (\<forall>k k' a b. objects s1 k = Some a \<and> objects s1 k' = Some b \<and> id_hash a = id_hash b
               \<longrightarrow> a = b)"
proof -
  have look: "objects s1 (hash_value E v) = Some i1"
    using assms(2) by (rule add_lookup)
  have inv1: "registry_inv s1"
    using assms(2,1) by (rule add_inv)
  have new: "objects s (hash_value E v) = None \<longrightarrow>
               i1 = BuffaloObjectHash E v \<and>
               s1 = s\<lparr>objects := (objects s)(hash_value E v \<mapsto> i1)\<rparr>"
    using assms(2) by (auto dest: add_cases)
  have "add E v s1 = (i1, s1)"
    using look by (rule add_existing)
  moreover have "\<forall>w. hash_value E w = hash_value E v \<longrightarrow> add E w s1 = (i1, s1)"
    using look by (simp add: add_existing)
  moreover have "\<forall>ex. objects s (hash_value E v) = Some ex \<longrightarrow> i1 = ex \<and> s1 = s"
    using assms(2) by (auto dest: add_cases)
  moreover have "id_hash i1 = hash_value E v"
    using assms(2,1) by (rule add_hash)
  moreover have "\<forall>k k' a b. objects s1 k = Some a \<and> objects s1 k' = Some b \<and> id_hash a = id_hash b
               \<longrightarrow> a = b"
    using inv1 unfolding registry_inv_def by (metis option.inject)
  ultimately show ?thesis using inv1 look new by blast
qed

text \<open>
  An instance: the value \<open>7\<close> is registered in the fresh session and then again.
\<close>

theorem add_idempotent_witness:
  "registry_inv demo_session
   \<and> add demo_env (PInt 7) demo_session = (seven, demo_registered)
   \<and> objects demo_registered 7 = Some seven
   \<and> seven = BuffaloObjectHash demo_env (PInt 7)
   \<and> add demo_env (PInt 7) demo_registered = (seven, demo_registered)
   \<and> id_hash seven = hash_value demo_env (PInt 7)
   \<and> registry_inv demo_registered"
proof -
  have h: "add demo_env (PInt 7) demo_session = (seven, demo_registered)"
    by (simp add: demo_registered_eq add_def BuffaloObjectHash_def demo_env_def seven_def
        demo_session_eq Let_def)
  have n: "objects demo_session (hash_value demo_env (PInt 7)) = None"
    by (simp add: demo_fields)
  show ?thesis
    using demo_inv h n add_idempotent[OF demo_inv h] by (simp add: demo_env_fields)
qed

subsection \<open>C5: the outputs of a recorded call\<close>

text \<open>
  C5, as the code has it. For a call in scope whose statement resolves and whose
  positional arguments have parameter names, the wrapper returns the function's value and
  appends a step. When the value is a tuple, the step's outputs are the identities of its
  elements under the indices \<open>0, 1, ...\<close>; any other value, a list or another sequence
  included, is one output under index \<open>0\<close>.
\<close>

theorem tuple_outputs_registered:
  assumes "active s" and "calling_lineno s caller = Inr (Some n)"
    and "fn_body f (wrapped_frame E caller) args kwargs s = (Inr out, s1)"
    and "active s1" and "registry_inv s1"
    and "resolve_statement E s1 n = Inr (src, tree)"
    and "fn_params f = Some ps"
    and "length args \<le> length ps"
  shows "fst (wrapped E si f caller args kwargs s) = Inr out
         \<and> history (snd (wrapped E si f caller args kwargs s)) \<noteq> []
         \<and> (let outs = step_output (last (history (snd (wrapped E si f caller args kwargs s))))
            in case out of
                 PTuple items \<Rightarrow>
                   map fst outs = [0..<length items] \<and>
                   map (\<lambda>p. id_hash (snd p)) outs = map (hash_value E) items
               | _ \<Rightarrow>
                   map fst outs = [0] \<and>
                   map (\<lambda>p. id_hash (snd p)) outs = [hash_value E out])"
proof -
  obtain s2 where w: "wrapped E si f caller args kwargs s = (Inr out, s2)"
    and r: "record_step E si f n args kwargs out s1 = (Inr (), s2)"
    using wrapped_records[OF assms(1,2,3,4,6,7,8)] by blast
  from r obtain d ins prm sA outs sB where
      p: "partition_inputs E si d s1 = ((ins, prm), sA)"
    and o: "register_outputs E out sA = (outs, sB)"
    and h: "history s2 \<noteq> []" "step_output (last (history s2)) = outs"
    by (rule record_step_Inr) simp
  have "registry_inv sA" using p assms(5) by (rule partition_inputs_inv)
  from register_outputs_shape[OF o this] w h show ?thesis by simp
qed

theorem tuple_outputs_registered_witness:
  "fst (wrapped demo_env [PStr ''x''] py_pair (script_frame 2) [PInt 3] [] demo_session)
     = Inr (PTuple [PInt 3, PInt 3])
   \<and> map fst (step_output (last (history (snd (wrapped demo_env [PStr ''x''] py_pair
         (script_frame 2) [PInt 3] [] demo_session))))) = [0, 1]
   \<and> map (\<lambda>p. id_hash (snd p)) (step_output (last (history (snd (wrapped demo_env
         [PStr ''x''] py_pair (script_frame 2) [PInt 3] [] demo_session))))) = [3, 3]"
  using tuple_outputs_registered
          [OF demo_active demo_lineno(1) demo_bodies(3) demo_active demo_inv demo_resolve(2)
              demo_params(2), of "[PStr ''x'']"]
  by (simp add: demo_env_fields upt_rec Let_def)

text \<open>
  A returned list is a sequence, and its elements are not registered one by one:
  \<^verbatim>\<open>halves(3)\<close> returns \<^verbatim>\<open>[3, 3]\<close>, and the step has the single output \<open>0\<close>, the
  identity of the list.
\<close>

theorem list_output_single_identity:
  "step_output (last (history (snd (wrapped demo_env [PStr ''x''] py_halves (script_frame 3)
       [PInt 3] [] demo_session))))
   = [(0, \<lparr>id_hash = - 102, id_value = PList [PInt 3, PInt 3]\<rparr>)]"
proof -
  have "wrapped demo_env [PStr ''x''] py_halves (script_frame 3) [PInt 3] [] demo_session =
        (case record_step demo_env [PStr ''x''] py_halves 3 [PInt 3] []
                (PList [PInt 3, PInt 3]) demo_session of
           (Inl e, s2) \<Rightarrow> (Inl e, s2)
         | (Inr u, s2) \<Rightarrow> (Inr (PList [PInt 3, PInt 3]), s2))"
    using demo_active demo_lineno(1) demo_bodies(4) demo_active by (rule wrapped_in_scope)
  then show ?thesis
    by (simp add: record_step_def demo_resolve demo_params register_outputs_def add_def
        BuffaloObjectHash_def Let_def demo_env_fields demo_fields)
qed

subsection \<open>C6: calls from outside the tracked script\<close>

text \<open>
  C6. Tracking is active, and the first frame outward from the caller that is not a
  \<^verbatim>\<open><listcomp>\<close> frame (the caller itself when it is not one) has a file or a
  function name that is not the tracked script's. Then the walk of the wrapper stops at
  exactly that frame, the scope check yields no line number, and the call of the wrapper
  is the call of the function: its value or exception is returned and the session state
  is the one the function left, so no step is appended.
\<close>

theorem out_of_scope_call_not_recorded:
  assumes "active s"
    and "first_named_scope caller = Some fr"
    and "\<not> (Some (info_filename fr) = source_file s \<and> Some (co_name fr) = source_name s)"
  shows "enclosing_scope caller = Inr fr
         \<and> calling_lineno s caller = Inr None
         \<and> wrapped E si f caller args kwargs s
             = fn_body f (wrapped_frame E caller) args kwargs s"
proof -
  have sc: "enclosing_scope caller = Inr fr"
    using assms(2) by (simp add: enclosing_scope_first_named)
  then have ln: "calling_lineno s caller = Inr None"
    using assms(3) by (rule calling_lineno_no_match)
  then have "wrapped E si f caller args kwargs s
             = fn_body f (wrapped_frame E caller) args kwargs s"
    by (intro wrapped_no_lineno) simp
  with sc ln show ?thesis by simp
qed

text \<open>
  An instance: the call is made inside a list comprehension nested in a list
  comprehension of \<^verbatim>\<open>helper\<close> in \<^verbatim>\<open>lib.py\<close>, itself called from the tracked
  \<^verbatim>\<open>run.py\<close>. The scope is \<^verbatim>\<open>helper\<close>, two frames out, not the tracked script at
  the bottom of the stack; the call returns \<open>3\<close> and the history stays empty.
\<close>

theorem out_of_scope_call_not_recorded_witness:
  "first_named_scope helper_nested_listcomp = Some helper_frame
   \<and> enclosing_scope helper_nested_listcomp = Inr helper_frame
   \<and> wrapped demo_env [PStr ''a'', PStr ''b''] py_add helper_nested_listcomp
       [PInt 1, PInt 2] [] demo_session = (Inr (PInt 3), demo_session)
   \<and> history demo_session = []"
proof -
  have h1: "first_named_scope helper_nested_listcomp = Some helper_frame"
    by (simp add: first_named_scope_def demo_frames)
  have h2: "\<not> (Some (info_filename helper_frame) = source_file demo_session \<and>
               Some (co_name helper_frame) = source_name demo_session)"
    by (simp add: demo_frames demo_session_eq)
  show ?thesis
    using h1 out_of_scope_call_not_recorded[OF demo_active h1 h2, of demo_env _ py_add]
    by (simp add: demo_bodies demo_fields)
qed

subsection \<open>C7: the export checks the extension first\<close>

text \<open>
  C7. The extension of a path is the second component of \<^verbatim>\<open>os.path.splitext\<close>, a
  suffix of the path. When its lower-case form is neither \<^verbatim>\<open>.html\<close> nor
  \<^verbatim>\<open>.htm\<close>, \<^verbatim>\<open>save_graph\<close> raises \<^verbatim>\<open>ValueError\<close> and the file system is as
  before. Otherwise the graph is built by adding every step of the history, in order, to
  a new graph, and the result is what \<^verbatim>\<open>to_pyvis\<close> does with that graph and the path.
\<close>

theorem save_graph_extension:
  "(lower (snd (splitext filename)) \<notin> {''.html'', ''.htm''} \<longrightarrow>
      save_graph E filename show s fs =
        (Inl (ValueError ''Filename must have HTML extension (.html, .htm)!''), fs))
   \<and> (lower (snd (splitext filename)) \<in> {''.html'', ''.htm''} \<longrightarrow>
      save_graph E filename show s fs =
        to_pyvis E (foldl (add_step E) (new_graph E) (history s)) filename show fs)
   \<and> fst (splitext filename) @ snd (splitext filename) = filename"
proof -
  have "fst (splitext filename) @ snd (splitext filename) = filename"
    by (simp add: splitext_def Let_def)
  then show ?thesis
    by (simp add: save_graph_def split: prod.splits)
qed

theorem save_graph_extension_witness:
  "save_graph demo_env ''trace.txt'' False demo_session []
     = (Inl (ValueError ''Filename must have HTML extension (.html, .htm)!''), [])
   \<and> save_graph demo_env ''out/trace.HTML'' False demo_session []
     = (Inr (), [(''out/trace.HTML'', [])])"
proof -
  have e1: "lower (snd (splitext ''trace.txt'')) = ''.txt''" by code_simp
  have e2: "lower (snd (splitext ''out/trace.HTML'')) = ''.html''" by code_simp
  show ?thesis
    using save_graph_extension[of "''trace.txt''" demo_env False demo_session "[]"]
          save_graph_extension[of "''out/trace.HTML''" demo_env False demo_session "[]"]
    by (simp add: e1 e2 demo_env_def demo_session_eq)
qed

subsection \<open>C8: exceptions of the wrapped function\<close>

text \<open>
  C8. When the wrapped function raises, the wrapper raises the same exception, whether
  tracking is active or not, and the session state is the one the function left: no step
  is appended for the call. The call stack is taken to be well formed, that is every
  \<^verbatim>\<open><listcomp>\<close> frame on the way out of the caller has a frame behind it.
\<close>

theorem function_exception_propagates:
  assumes "enclosing_scope caller = Inr fr"
    and "fn_body f (wrapped_frame E caller) args kwargs s = (Inl e, s1)"
  shows "wrapped E si f caller args kwargs s = (Inl e, s1)"
proof -
  obtain l where "calling_lineno s caller = Inr l"
    using calling_lineno_ok[OF assms(1)] by blast
  then show ?thesis using assms(2) by (simp add: wrapped_def)
qed

theorem function_exception_propagates_witness:
  "wrapped demo_env [PStr ''a'', PStr ''b''] py_add (script_frame 1) [PStr ''x'', PInt 2] []
     demo_session = (Inl TypeError, demo_session)
   \<and> wrapped demo_env [PStr ''a'', PStr ''b''] py_add (script_frame 1) [PStr ''x'', PInt 2] []
       Provenance_class = (Inl TypeError, Provenance_class)"
proof -
  have h: "enclosing_scope (script_frame 1) = Inr (script_frame 1)"
    by (simp add: demo_frames)
  show ?thesis
    using function_exception_propagates[OF h demo_bodies(2), where E = demo_env and s = demo_session]
          function_exception_propagates[OF h demo_bodies(2), where E = demo_env
            and s = "Provenance_class :: string provenance"]
    by simp
qed

subsection \<open>C9: the registry after a call from outside the tracked script\<close>

text \<open>
  C9. Tracking is active and the calling scope is not the tracked script (the scope
  check yields no line number). Then the registry after the call of the wrapper is the
  registry the wrapped function left: the wrapper registers neither the arguments nor the
  returned values.
\<close>

theorem out_of_scope_registry_unchanged:
  assumes "active s" and "calling_lineno s caller = Inr None"
  shows "objects (snd (wrapped E si f caller args kwargs s))
         = objects (snd (fn_body f (wrapped_frame E caller) args kwargs s))"
  using assms by (simp add: wrapped_no_lineno)

theorem out_of_scope_registry_unchanged_witness:
  "objects (snd (wrapped demo_env [PStr ''a'', PStr ''b''] py_add helper_frame
       [PInt 1, PInt 2] [] demo_session)) = Map.empty"
  using out_of_scope_registry_unchanged[OF demo_active demo_lineno(3), of demo_env _ py_add]
  by (simp add: demo_bodies demo_session_eq)

subsection \<open>C10: the recorded function definition\<close>

text \<open>
  C10. The wrapper that \<^verbatim>\<open>Provenance.__call__\<close> returns has the name, the module
  and the docstring of the function it wraps, and its body is \<^verbatim>\<open>wrapped\<close>. For a call
  in scope whose statement resolves and whose positional arguments have parameter names,
  the wrapper returns the function's value and the step it appends carries the
  \<^verbatim>\<open>FunctionDefinition\<close> made of the wrapped function's name and module, with no
  version.
\<close>

theorem function_definition_recorded:
  assumes "active s" and "calling_lineno s caller = Inr (Some n)"
    and "fn_body f (wrapped_frame E caller) args kwargs s = (Inr out, s1)"
    and "active s1"
    and "resolve_statement E s1 n = Inr (src, tree)"
    and "fn_params f = Some ps"
    and "length args \<le> length ps"
  shows "fn_name (Provenance_call E si f) = fn_name f
         \<and> fn_module (Provenance_call E si f) = fn_module f
         \<and> fn_doc (Provenance_call E si f) = fn_doc f
         \<and> fn_body (Provenance_call E si f) = wrapped E si f
         \<and> fst (fn_body (Provenance_call E si f) caller args kwargs s) = Inr out
         \<and> history (snd (fn_body (Provenance_call E si f) caller args kwargs s)) \<noteq> []
         \<and> function_def (last (history (snd (fn_body (Provenance_call E si f) caller args kwargs s))))
             = \<lparr>name = fn_name f, module = fn_module f, version = None\<rparr>"
proof -
  obtain s2 where w: "wrapped E si f caller args kwargs s = (Inr out, s2)"
    and r: "record_step E si f n args kwargs out s1 = (Inr (), s2)"
    using wrapped_records[OF assms] by blast
  from r have "history s2 \<noteq> []"
    and "function_def (last (history s2)) = \<lparr>name = fn_name f, module = fn_module f, version = None\<rparr>"
    by (rule record_step_Inr, simp)+
  with w show ?thesis by (simp add: Provenance_call_def)
qed

theorem function_definition_recorded_witness:
  "fn_name (Provenance_call demo_env [PStr ''a'', PStr ''b''] py_add) = ''add''
   \<and> fn_module (Provenance_call demo_env [PStr ''a'', PStr ''b''] py_add) = ''__main__''
   \<and> function_def (last (history (snd (fn_body
         (Provenance_call demo_env [PStr ''a'', PStr ''b''] py_add)
         (script_frame 1) [PInt 1, PInt 2] [] demo_session))))
       = \<lparr>name = ''add'', module = ''__main__'', version = None\<rparr>"
  using function_definition_recorded
          [OF demo_active demo_lineno(1) demo_bodies(1) demo_active demo_resolve(1)
              demo_params(1), of "[PStr ''a'', PStr ''b'']"]
  by (simp add: demo_names Provenance_call_def)

end
